theory Spec2Isabelle
  imports Complex_Main
begin

section \<open>Shared vocabulary\<close>

text \<open>
  The two modules of the repository are \<^verbatim>\<open>bitcoin_current_price.py\<close> (the reconnecting
  feed client) and \<^verbatim>\<open>app.py\<close> (the tick queue and the render loop). Every exception
  class that one of their statements can raise is a constructor of \<open>exn\<close>; a function
  that can raise returns \<open>exn + 'a\<close> with \<open>Inl\<close> for the raise.
\<close>

datatype exn =
    Empty | Full
  | IndexError | ValueError | AttributeError | KeyError | TypeError | JSONDecodeError
  | ConnectionClosedError | ConnectionClosedOK | InvalidStatusCode | OSError
  | OtherException

text \<open>
  A \<^verbatim>\<open>datetime\<close> is an instant with microsecond resolution and a \<^verbatim>\<open>timedelta\<close> a
  signed number of microseconds; both are integers here. Prices are Python floats; they
  are idealised as rationals, so rounding of the float arithmetic is not modelled.
\<close>

type_synonym datetime = int
type_synonym timedelta = int
type_synonym price = rat

section \<open>app.py: constants\<close>

definition WINDOW_SECS :: int where
  "WINDOW_SECS = 20 * 60"

definition Y_TICK_INTERVAL :: int where
  "Y_TICK_INTERVAL = 250"

definition timedelta_seconds :: "int \<Rightarrow> timedelta" where
  "timedelta_seconds s = s * 1000000"

section \<open>app.py: the y-axis range (lines 156 to 160)\<close>

text \<open>
  The builtins \<^verbatim>\<open>min\<close> and \<^verbatim>\<open>max\<close> raise \<^verbatim>\<open>ValueError\<close> on an empty list and
  otherwise scan it from the left, keeping the first smallest (largest) item.
\<close>

definition min_py :: "price list \<Rightarrow> exn + price" where
  "min_py xs = (case xs of [] \<Rightarrow> Inl ValueError
                | x # r \<Rightarrow> Inr (fold (\<lambda>item m. if item < m then item else m) r x))"

definition max_py :: "price list \<Rightarrow> exn + price" where
  "max_py xs = (case xs of [] \<Rightarrow> Inl ValueError
                | x # r \<Rightarrow> Inr (fold (\<lambda>item m. if item > m then item else m) r x))"

text \<open>
  \<^verbatim>\<open>int(x // Y_TICK_INTERVAL)\<close> on a float \<open>x\<close>: floor division, then the conversion of
  an integral float to \<^verbatim>\<open>int\<close>.
\<close>

definition floordiv_tick :: "price \<Rightarrow> int" where
  "floordiv_tick x = \<lfloor>x / of_int Y_TICK_INTERVAL\<rfloor>"

definition low_of :: "price \<Rightarrow> int" where
  "low_of ymin = floordiv_tick (ymin - of_int Y_TICK_INTERVAL) * Y_TICK_INTERVAL"

definition high_of :: "price \<Rightarrow> int" where
  "high_of ymax =
     floordiv_tick (ymax + of_int Y_TICK_INTERVAL + of_int Y_TICK_INTERVAL - 1) * Y_TICK_INTERVAL"

definition y_axis_range :: "price list \<Rightarrow> exn + (int \<times> int)" where
  "y_axis_range prices =
     (case min_py prices of Inl e \<Rightarrow> Inl e
      | Inr ymin \<Rightarrow>
          (case max_py prices of Inl e \<Rightarrow> Inl e
           | Inr ymax \<Rightarrow> Inr (low_of ymin, high_of ymax)))"

section \<open>app.py: the tick queue (line 34) and its producer (lines 39 to 50)\<close>

text \<open>
  \<^verbatim>\<open>queue.Queue(maxsize = 1)\<close>: the queue is the list of the items it holds, oldest
  first. \<^verbatim>\<open>get_nowait\<close> raises \<^verbatim>\<open>Empty\<close> on an empty queue, \<^verbatim>\<open>put_nowait\<close> raises
  \<^verbatim>\<open>Full\<close> when the queue already holds \<open>maxsize\<close> items. Each call is atomic (the
  queue takes its lock); the functions below are the calls of one thread run without
  interruption by the other.
\<close>

type_synonym tick = "datetime \<times> price"

definition maxsize :: nat where
  "maxsize = 1"

definition get_nowait :: "'a list \<Rightarrow> exn + ('a \<times> 'a list)" where
  "get_nowait q = (case q of [] \<Rightarrow> Inl Empty | x # r \<Rightarrow> Inr (x, r))"

definition put_nowait :: "'a list \<Rightarrow> 'a \<Rightarrow> exn + 'a list" where
  "put_nowait q x = (if maxsize \<le> length q then Inl Full else Inr (q @ [x]))"

text \<open>
  Lines 42 to 46 of \<^verbatim>\<open>consume\<close>: take items until \<^verbatim>\<open>Empty\<close> is raised, which is
  swallowed.
\<close>

function discard_stale :: "'a list \<Rightarrow> 'a list" where
  "discard_stale q = (case get_nowait q of Inl e \<Rightarrow> q | Inr (x, r) \<Rightarrow> discard_stale r)"
  by pat_completeness auto
termination
  by (relation "measure length") (auto simp: get_nowait_def split: list.splits)

text \<open>
  The body of the \<^verbatim>\<open>async for\<close> in \<^verbatim>\<open>consume\<close> for one price, stamped \<open>ts\<close>:
  empty the queue, then \<^verbatim>\<open>put_nowait\<close>; a \<^verbatim>\<open>Full\<close> is swallowed and the tick dropped.
\<close>

definition consume :: "tick list \<Rightarrow> tick \<Rightarrow> tick list" where
  "consume q item =
     (let q1 = discard_stale q
      in case put_nowait q1 item of Inl e \<Rightarrow> q1 | Inr q2 \<Rightarrow> q2)"

section \<open>app.py: the render loop (lines 90 to 165)\<close>

text \<open>
  \<^verbatim>\<open>st.session_state.times\<close> and \<^verbatim>\<open>st.session_state.prices\<close>, created empty at lines
  28 to 31.
\<close>

record session_state =
  times_ss :: "datetime list"
  prices_ss :: "price list"

definition initial_state :: session_state where
  "initial_state = \<lparr>times_ss = [], prices_ss = []\<rparr>"

text \<open>
  Lines 94 to 101: every item the queue gives is appended to both lists; the loop ends
  at the first \<^verbatim>\<open>Empty\<close>. The result is the queue, the session state and \<^verbatim>\<open>updated\<close>.
\<close>

function drain :: "tick list \<Rightarrow> session_state \<Rightarrow> bool \<Rightarrow> tick list \<times> session_state \<times> bool" where
  "drain q st updated =
     (case get_nowait q of
        Inl e \<Rightarrow> (q, st, updated)
      | Inr ((ts_utc, p), r) \<Rightarrow>
          drain r (st\<lparr>times_ss := times_ss st @ [ts_utc], prices_ss := prices_ss st @ [p]\<rparr>) True)"
  by pat_completeness auto
termination
  by (relation "measure (\<lambda>(q, st, updated). length q)")
     (auto simp: get_nowait_def split: list.splits)

text \<open>
  Lines 110 to 118. \<^verbatim>\<open>times_utc[0]\<close> raises \<^verbatim>\<open>IndexError\<close> on an empty list.
\<close>

definition x_axis_range :: "datetime list \<Rightarrow> datetime \<Rightarrow> exn + (datetime \<times> datetime)" where
  "x_axis_range times_utc now_utc =
     (case times_utc of
        [] \<Rightarrow> Inl IndexError
      | first_utc # rest \<Rightarrow>
          (let window = timedelta_seconds WINDOW_SECS
           in if now_utc - first_utc < window
              then Inr (first_utc, first_utc + window)
              else Inr (now_utc - window, now_utc)))"

text \<open>
  Lines 121 to 123: the index of the first timestamp that is not before \<open>x_start_utc\<close>.
\<close>

function trim_index :: "datetime list \<Rightarrow> datetime \<Rightarrow> nat \<Rightarrow> nat" where
  "trim_index times_utc x_start_utc i =
     (if i < length times_utc \<and> times_utc ! i < x_start_utc
      then trim_index times_utc x_start_utc (i + 1)
      else i)"
  by pat_completeness auto
termination
  by (relation "measure (\<lambda>(times_utc, x_start_utc, i). length times_utc - i)") auto

text \<open>
  Lines 124 to 128. When \<open>i\<close> is not zero, both lists of the session state are replaced
  by their slices from \<open>i\<close>; then line 127 reads \<^verbatim>\<open>st.session_steate\<close>, an attribute the
  \<^verbatim>\<open>streamlit\<close> module does not have, and \<^verbatim>\<open>AttributeError\<close> is raised with the session
  state already updated. When \<open>i\<close> is zero the locals \<^verbatim>\<open>times_utc\<close> and \<^verbatim>\<open>prices\<close> stay
  the lists of the session state. The result is the session state and either the
  exception or the two locals.
\<close>

definition trim :: "datetime \<Rightarrow> session_state \<Rightarrow> session_state \<times> (exn + (datetime list \<times> price list))" where
  "trim x_start_utc st =
     (let i = trim_index (times_ss st) x_start_utc 0
      in if i \<noteq> 0
         then (st\<lparr>times_ss := drop i (times_ss st), prices_ss := drop i (prices_ss st)\<rparr>,
               Inl AttributeError)
         else (st, Inr (times_ss st, prices_ss st)))"

text \<open>\<^verbatim>\<open>xs[-1]\<close> raises \<^verbatim>\<open>IndexError\<close> on an empty list.\<close>

definition last_py :: "'a list \<Rightarrow> exn + 'a" where
  "last_py xs = (if xs = [] then Inl IndexError else Inr (last xs))"

text \<open>
  What one pass hands to the chart: the two traces, the annotation and the axis ranges.
  The conversion to Eastern Time changes how an instant is printed, not the instant.
\<close>

record display =
  line_x :: "datetime list"
  line_y :: "price list"
  last_point :: "datetime \<times> price"
  x_range :: "datetime \<times> datetime"
  y_range :: "int \<times> int"

text \<open>
  One pass of the \<^verbatim>\<open>while True\<close> loop, run on the queue \<open>q\<close> at the instant \<open>now_utc\<close>.
  The result is the queue, the session state, and the exception that ended the pass or
  the chart that was drawn (\<open>None\<close> when nothing was drawn).
\<close>

definition render_tick ::
  "tick list \<Rightarrow> datetime \<Rightarrow> session_state \<Rightarrow> tick list \<times> session_state \<times> (exn + display option)" where
  "render_tick q now_utc st =
     (case drain q st False of (q', st1, updated) \<Rightarrow>
        if updated \<and> prices_ss st1 \<noteq> [] then
          (case x_axis_range (times_ss st1) now_utc of
             Inl e \<Rightarrow> (q', st1, Inl e)
           | Inr (x_start_utc, x_end_utc) \<Rightarrow>
               (case trim x_start_utc st1 of
                  (st2, Inl e) \<Rightarrow> (q', st2, Inl e)
                | (st2, Inr (times_utc, prices)) \<Rightarrow>
                    (case last_py times_utc of
                       Inl e \<Rightarrow> (q', st2, Inl e)
                     | Inr last_ts \<Rightarrow>
                         (case last_py prices of
                            Inl e \<Rightarrow> (q', st2, Inl e)
                          | Inr last_price \<Rightarrow>
                              (case y_axis_range prices of
                                 Inl e \<Rightarrow> (q', st2, Inl e)
                               | Inr (low, high) \<Rightarrow>
                                   (q', st2,
                                    Inr (Some \<lparr>line_x = times_utc, line_y = prices,
                                               last_point = (last_ts, last_price),
                                               x_range = (x_start_utc, x_end_utc),
                                               y_range = (low, high)\<rparr>)))))))
        else (q', st1, Inr None))"

text \<open>
  The session state outlives a pass that raised: the script stops, and its next run
  enters the loop again with the lists as they were left. A run of the application is
  therefore a sequence of passes, each with the queue it finds and its clock reading.
\<close>

fun run_ticks :: "(tick list \<times> datetime) list \<Rightarrow> session_state \<Rightarrow> session_state" where
  "run_ticks [] st = st"
| "run_ticks ((q, now_utc) # rest) st = run_ticks rest (fst (snd (render_tick q now_utc st)))"

section \<open>bitcoin_current_price.py: stream_latest_price (lines 11 to 36)\<close>

text \<open>
  What \<^verbatim>\<open>json.loads\<close> can return. A frame of the socket is either text that
  \<^verbatim>\<open>json.loads\<close> rejects with \<^verbatim>\<open>JSONDecodeError\<close>, or the value it decodes to. A JSON
  object becomes a dictionary; of two equal keys the later one wins.
\<close>

datatype json =
    JNull | JBool bool | JNum rat | JStr string
  | JList "json list" | JDict "(string \<times> json) list"

datatype message = NotJson | Json json

text \<open>
  \<^verbatim>\<open>data["c"]\<close>: \<^verbatim>\<open>KeyError\<close> when the dictionary has no such key, \<^verbatim>\<open>TypeError\<close> when
  \<open>data\<close> is not a dictionary.
\<close>

definition subscript_c :: "json \<Rightarrow> exn + json" where
  "subscript_c data =
     (case data of
        JDict kvs \<Rightarrow> (case map_of (rev kvs) ''c'' of None \<Rightarrow> Inl KeyError | Some v \<Rightarrow> Inr v)
      | _ \<Rightarrow> Inl TypeError)"

text \<open>
  \<^verbatim>\<open>float(v)\<close>. How a string is read as a number is the builtin's business and is the
  parameter \<open>str_to_float\<close>; it answers \<open>None\<close> where the builtin raises
  \<^verbatim>\<open>ValueError\<close>.
\<close>

definition float_py :: "(string \<Rightarrow> price option) \<Rightarrow> json \<Rightarrow> exn + price" where
  "float_py str_to_float v =
     (case v of
        JNum x \<Rightarrow> Inr x
      | JBool b \<Rightarrow> Inr (if b then 1 else 0)
      | JStr s \<Rightarrow> (case str_to_float s of None \<Rightarrow> Inl ValueError | Some x \<Rightarrow> Inr x)
      | _ \<Rightarrow> Inl TypeError)"

text \<open>Lines 27 and 28 for one message.\<close>

definition decode_price :: "(string \<Rightarrow> price option) \<Rightarrow> message \<Rightarrow> exn + price" where
  "decode_price str_to_float msg =
     (case msg of
        NotJson \<Rightarrow> Inl JSONDecodeError
      | Json data \<Rightarrow>
          (case subscript_c data of
             Inl e \<Rightarrow> Inl e
           | Inr v \<Rightarrow> float_py str_to_float v))"

text \<open>
  The \<^verbatim>\<open>except\<close> clause of lines 30 to 33 names four classes; an exception of any other
  class passes through it.
\<close>

definition caught :: "exn \<Rightarrow> bool" where
  "caught e =
     (e = ConnectionClosedError \<or> e = ConnectionClosedOK \<or> e = InvalidStatusCode \<or> e = OSError)"

text \<open>
  What the generator does that its surroundings can see: it yields a price to its
  consumer, or it sleeps for a number of seconds.
\<close>

datatype effect = Yield price | Sleep int

text \<open>
  What the network does to one pass of the \<^verbatim>\<open>while True\<close> loop: either
  \<^verbatim>\<open>websockets.connect\<close> raises, or the connection opens, delivers messages and then
  ends, by an exception raised while waiting for the next message or by the message
  iterator running out.
\<close>

datatype ending = Raises exn | Exhausted

datatype attempt = ConnectRaises exn | Connected "message list" ending

text \<open>
  Lines 26 to 29: each message is decoded and its price yielded; the first message
  whose decoding raises ends the loop with that exception.
\<close>

fun receive :: "(string \<Rightarrow> price option) \<Rightarrow> message list \<Rightarrow> effect list \<times> exn option" where
  "receive str_to_float [] = ([], None)"
| "receive str_to_float (msg # msgs) =
     (case decode_price str_to_float msg of
        Inl e \<Rightarrow> ([], Some e)
      | Inr price \<Rightarrow>
          (case receive str_to_float msgs of (out, r) \<Rightarrow> (Yield price # out, r)))"

text \<open>
  Lines 30 to 36, entered with the exception \<open>e\<close> raised in the \<^verbatim>\<open>try\<close> block after
  the outputs \<open>out\<close>: a caught exception is answered by the sleep and the doubling of
  \<open>backoff\<close>, and the loop goes on (\<open>Inr\<close> the new \<open>backoff\<close>); any other exception
  leaves the generator (\<open>Inl\<close>).
\<close>

definition handler :: "int \<Rightarrow> effect list \<Rightarrow> exn \<Rightarrow> effect list \<times> (exn + int)" where
  "handler backoff out e =
     (if caught e then (out @ [Sleep backoff], Inr (min (backoff * 2) 32)) else (out, Inl e))"

text \<open>One pass of the \<^verbatim>\<open>while True\<close> loop of line 19, entered with \<open>backoff\<close>.\<close>

definition iteration ::
  "(string \<Rightarrow> price option) \<Rightarrow> int \<Rightarrow> attempt \<Rightarrow> effect list \<times> (exn + int)" where
  "iteration str_to_float backoff a =
     (case a of
        ConnectRaises e \<Rightarrow> handler backoff [] e
      | Connected msgs ending \<Rightarrow>
          (let backoff1 = 1
           in case receive str_to_float msgs of
                (out, Some e) \<Rightarrow> handler backoff1 out e
              | (out, None) \<Rightarrow>
                  (case ending of
                     Raises e \<Rightarrow> handler backoff1 out e
                   | Exhausted \<Rightarrow> (out, Inr backoff1))))"

text \<open>
  The loop over the attempts the network allows. The generator has no \<^verbatim>\<open>return\<close> and
  no \<^verbatim>\<open>break\<close>: after the last attempt given it is about to connect again with the
  \<open>backoff\<close> it holds (\<open>Inr\<close>), unless an exception has left it (\<open>Inl\<close>).
\<close>

fun stream_loop ::
  "(string \<Rightarrow> price option) \<Rightarrow> int \<Rightarrow> attempt list \<Rightarrow> effect list \<times> (exn + int)" where
  "stream_loop str_to_float backoff [] = ([], Inr backoff)"
| "stream_loop str_to_float backoff (a # rest) =
     (case iteration str_to_float backoff a of
        (out, Inl e) \<Rightarrow> (out, Inl e)
      | (out, Inr backoff') \<Rightarrow>
          (case stream_loop str_to_float backoff' rest of (out', r) \<Rightarrow> (out @ out', r)))"

text \<open>Line 17 sets \<open>backoff\<close> to 1 before the loop.\<close>

definition stream_latest_price ::
  "(string \<Rightarrow> price option) \<Rightarrow> attempt list \<Rightarrow> effect list \<times> (exn + int)" where
  "stream_latest_price str_to_float attempts = stream_loop str_to_float 1 attempts"

section \<open>Vocabulary of the properties\<close>

text \<open>The sleeps among the outputs, in order.\<close>

fun sleeps :: "effect list \<Rightarrow> int list" where
  "sleeps [] = []"
| "sleeps (Yield p # out) = sleeps out"
| "sleeps (Sleep n # out) = n # sleeps out"

text \<open>
  A message is malformed when it is not JSON or has no field \<open>c\<close> to read. An attempt
  is a failure of the network only, when every exception in it is one the handler
  catches and none of its messages makes the decoding raise.
\<close>

definition malformed :: "message \<Rightarrow> bool" where
  "malformed msg =
     (case msg of
        NotJson \<Rightarrow> True
      | Json data \<Rightarrow> (case data of JDict kvs \<Rightarrow> map_of kvs ''c'' = None | _ \<Rightarrow> True))"

definition network_only :: "(string \<Rightarrow> price option) \<Rightarrow> attempt \<Rightarrow> bool" where
  "network_only str_to_float a =
     (case a of
        ConnectRaises e \<Rightarrow> caught e
      | Connected msgs ending \<Rightarrow>
          snd (receive str_to_float msgs) = None
          \<and> (case ending of Raises e \<Rightarrow> caught e | Exhausted \<Rightarrow> True))"

definition raises :: "attempt \<Rightarrow> bool" where
  "raises a =
     (case a of
        ConnectRaises e \<Rightarrow> True
      | Connected msgs ending \<Rightarrow> (case ending of Raises e \<Rightarrow> True | Exhausted \<Rightarrow> False))"

text \<open>
  The sleeps of \<open>n\<close> failures in a row that start from a \<open>backoff\<close> of 1: the sleep
  number \<open>i\<close>, counted from 0, lasts \<open>min (2 ^ i) 32\<close> seconds.
\<close>

definition backoff_sleeps :: "nat \<Rightarrow> int list" where
  "backoff_sleeps n = map (\<lambda>i. min (2 ^ i) 32) [0..<n]"

text \<open>
  A reading of strings that accepts none, for runs whose prices are JSON numbers.
\<close>

definition no_strings :: "string \<Rightarrow> price option" where
  "no_strings s = None"

section \<open>Facts about the y-axis range\<close>

lemma floordiv_tickI:
  assumes "of_int k * 250 \<le> x" and "x < (of_int k + 1) * 250"
  shows "floordiv_tick x = k"
proof -
  have "of_int k \<le> x / 250" "x / 250 < of_int k + 1"
    using assms by (simp_all add: field_simps)
  then have "\<lfloor>x / 250\<rfloor> = k"
    by (rule floor_unique)
  then show ?thesis
    by (simp add: floordiv_tick_def Y_TICK_INTERVAL_def)
qed

lemma floordiv_tick_bounds:
  "of_int (floordiv_tick x) * 250 \<le> x" "x < (of_int (floordiv_tick x) + 1) * 250"
  using floor_correct [of "x / 250"]
  by (simp_all add: floordiv_tick_def Y_TICK_INTERVAL_def field_simps)

lemma high_of_int:
  "high_of (of_int n) =
     \<lceil>(of_int n + of_int Y_TICK_INTERVAL) / (of_int Y_TICK_INTERVAL :: rat)\<rceil> * Y_TICK_INTERVAL"
proof -
  define c where "c = \<lceil>(rat_of_int n + 250) / 250\<rceil>"
  have "rat_of_int c - 1 < (rat_of_int n + 250) / 250" "(rat_of_int n + 250) / 250 \<le> rat_of_int c"
    unfolding c_def by linarith+
  then have "rat_of_int ((c - 1) * 250) < rat_of_int (n + 250)" "rat_of_int (n + 250) \<le> rat_of_int (c * 250)"
    by (simp_all add: field_simps)
  then have "(c - 1) * 250 < n + 250" "n + 250 \<le> c * 250"
    by (simp_all only: of_int_less_iff of_int_le_iff)
  then have "c * 250 \<le> n + 499" "n + 499 < (c + 1) * 250"
    by (simp_all add: algebra_simps)
  then have "rat_of_int (c * 250) \<le> rat_of_int (n + 499)" "rat_of_int (n + 499) < rat_of_int ((c + 1) * 250)"
    by (simp_all only: of_int_less_iff of_int_le_iff)
  then have "floordiv_tick (rat_of_int n + 250 + 250 - 1) = c"
    by (intro floordiv_tickI) simp_all
  then show ?thesis
    by (simp add: high_of_def Y_TICK_INTERVAL_def c_def)
qed


lemma high_low_single:
  "high_of p - low_of p = (if p - of_int (floordiv_tick p * 250) < 1 then 500 else 750)"
proof -
  define k where "k = floordiv_tick p"
  have kb: "of_int k * 250 \<le> p" "p < (of_int k + 1) * 250"
    unfolding k_def by (rule floordiv_tick_bounds)+
  have "rat_of_int (k - 1) * 250 \<le> p - 250" "p - 250 < (rat_of_int (k - 1) + 1) * 250"
    using kb by (simp_all add: algebra_simps)
  then have lo: "floordiv_tick (p - 250) = k - 1"
    by (rule floordiv_tickI)
  show ?thesis
  proof (cases "p - of_int (k * 250) < 1")
    case True
    with kb have "rat_of_int (k + 1) * 250 \<le> p + 250 + 250 - 1" "p + 250 + 250 - 1 < (rat_of_int (k + 1) + 1) * 250"
      by (simp_all add: algebra_simps)
    then have "floordiv_tick (p + 250 + 250 - 1) = k + 1"
      by (rule floordiv_tickI)
    with lo True show ?thesis
      by (simp add: high_of_def low_of_def Y_TICK_INTERVAL_def k_def)
  next
    case False
    with kb have "rat_of_int (k + 2) * 250 \<le> p + 250 + 250 - 1" "p + 250 + 250 - 1 < (rat_of_int (k + 2) + 1) * 250"
      by (simp_all add: algebra_simps)
    then have "floordiv_tick (p + 250 + 250 - 1) = k + 2"
      by (rule floordiv_tickI)
    with lo False show ?thesis
      by (simp add: high_of_def low_of_def Y_TICK_INTERVAL_def k_def)
  qed
qed

lemma fold_keep_min: "fold (\<lambda>item m. if item < m then item else m) r (x::rat) = Min (set (x # r))"
proof -
  have "(\<lambda>item m. if item < m then item else m) = (min :: rat \<Rightarrow> rat \<Rightarrow> rat)"
    by (intro ext) (simp add: min_def)
  then show ?thesis
    by (simp only: Min.set_eq_fold)
qed

lemma fold_keep_max: "fold (\<lambda>item m. if item > m then item else m) r (x::rat) = Max (set (x # r))"
proof -
  have "(\<lambda>item m. if item > m then item else m) = (max :: rat \<Rightarrow> rat \<Rightarrow> rat)"
    by (intro ext) (simp add: max_def)
  then show ?thesis
    by (simp only: Max.set_eq_fold)
qed

lemma y_axis_range_Min_Max:
  "prices \<noteq> [] \<Longrightarrow> y_axis_range prices = Inr (low_of (Min (set prices)), high_of (Max (set prices)))"
  by (cases prices) (simp_all add: y_axis_range_def min_py_def max_py_def fold_keep_min fold_keep_max del: set_simps)

lemma low_of_floor:
  "low_of p = \<lfloor>(p - of_int Y_TICK_INTERVAL) / of_int Y_TICK_INTERVAL\<rfloor> * Y_TICK_INTERVAL"
  by (simp add: low_of_def floordiv_tick_def)


lemma low_of_margin: "of_int (low_of p) \<le> p - of_int Y_TICK_INTERVAL"
proof -
  have "of_int (floordiv_tick (p - 250)) * 250 \<le> p - 250"
    by (rule floordiv_tick_bounds)
  then show ?thesis
    by (simp add: low_of_def Y_TICK_INTERVAL_def)
qed

lemma high_of_margin: "p + of_int Y_TICK_INTERVAL - 1 < of_int (high_of p)"
proof -
  have "p + 250 + 250 - 1 < (of_int (floordiv_tick (p + 250 + 250 - 1)) + 1) * 250"
    by (rule floordiv_tick_bounds)
  then show ?thesis
    by (simp add: high_of_def Y_TICK_INTERVAL_def algebra_simps)
qed

lemma floordiv_tick_multiple: "floordiv_tick (rat_of_int (k * Y_TICK_INTERVAL)) = k"
  by (rule floordiv_tickI) (simp_all add: Y_TICK_INTERVAL_def)

section \<open>Facts about the queue and the render loop\<close>

declare discard_stale.simps [simp del] drain.simps [simp del] trim_index.simps [simp del]

lemma discard_stale_empty: "discard_stale q = []"
proof (induction q)
  case Nil
  show ?case by (subst discard_stale.simps) (simp add: get_nowait_def)
next
  case (Cons x r)
  then show ?case by (subst discard_stale.simps) (simp add: get_nowait_def)
qed

lemma consume_single: "consume q item = [item]"
  by (simp add: consume_def discard_stale_empty put_nowait_def maxsize_def)

lemma foldl_consume: "foldl consume q items = (if items = [] then q else [last items])"
  by (induction items arbitrary: q) (simp_all add: consume_single)

lemma drain_all:
  "drain q st updated =
     ([], st\<lparr>times_ss := times_ss st @ map fst q, prices_ss := prices_ss st @ map snd q\<rparr>,
      updated \<or> q \<noteq> [])"
proof (induction q arbitrary: st updated)
  case Nil
  show ?case by (subst drain.simps) (simp add: get_nowait_def)
next
  case (Cons x r)
  show ?case by (subst drain.simps) (simp add: get_nowait_def Cons.IH split: prod.splits)
qed

lemma trim_index_takeWhile:
  "i \<le> length ts \<Longrightarrow> trim_index ts x i = i + length (takeWhile (\<lambda>t. t < x) (drop i ts))"
proof (induction ts x i rule: trim_index.induct)
  case (1 ts x i)
  show ?case
  proof (cases "i < length ts \<and> ts ! i < x")
    case True
    then have d: "drop i ts = ts ! i # drop (Suc i) ts"
      by (simp add: Cons_nth_drop_Suc)
    from True have "trim_index ts x i = trim_index ts x (i + 1)"
      by (subst trim_index.simps) simp
    also have "\<dots> = i + 1 + length (takeWhile (\<lambda>t. t < x) (drop (i + 1) ts))"
      using True by (intro "1.IH") simp_all
    finally show ?thesis using True d by simp
  next
    case False
    then have "trim_index ts x i = i"
      by (subst trim_index.simps) auto
    moreover have "takeWhile (\<lambda>t. t < x) (drop i ts) = []"
    proof (cases "i < length ts")
      case True
      with False have "\<not> ts ! i < x" by simp
      moreover from True have "drop i ts = ts ! i # drop (Suc i) ts"
        by (simp add: Cons_nth_drop_Suc)
      ultimately show ?thesis by simp
    next
      case False
      then show ?thesis by simp
    qed
    ultimately show ?thesis by simp
  qed
qed

lemma trim_index_0: "trim_index ts x 0 = length (takeWhile (\<lambda>t. t < x) ts)"
  using trim_index_takeWhile [of 0 ts x] by simp

lemma trim_state:
  "fst (trim x st) =
     st\<lparr>times_ss := drop (length (takeWhile (\<lambda>t. t < x) (times_ss st))) (times_ss st),
        prices_ss := drop (length (takeWhile (\<lambda>t. t < x) (times_ss st))) (prices_ss st)\<rparr>"
  by (simp add: trim_def Let_def trim_index_0)

lemma trim_outcome:
  "snd (trim x st) =
     (if takeWhile (\<lambda>t. t < x) (times_ss st) = [] then Inr (times_ss st, prices_ss st)
      else Inl AttributeError)"
  by (simp add: trim_def Let_def trim_index_0)

lemma drop_takeWhile_length: "drop (length (takeWhile P xs)) xs = dropWhile P xs"
  by (induction xs) simp_all

lemma render_tick_lengths:
  assumes "length (times_ss st) = length (prices_ss st)"
  shows "length (times_ss (fst (snd (render_tick q now st)))) =
         length (prices_ss (fst (snd (render_tick q now st))))"
proof -
  obtain st1 where st1: "drain q st False = ([], st1, q \<noteq> [])"
    and l1: "length (times_ss st1) = length (prices_ss st1)"
    using assms by (simp add: drain_all)
  have l2: "length (times_ss st2) = length (prices_ss st2)" if "trim x st1 = (st2, r)" for x st2 r
    using l1 trim_state [of x st1] that by simp
  show ?thesis
    using l1 by (auto simp: render_tick_def st1 split: sum.splits prod.splits dest: l2)
qed

lemma run_ticks_lengths:
  "length (times_ss st) = length (prices_ss st) \<Longrightarrow>
   length (times_ss (run_ticks inputs st)) = length (prices_ss (run_ticks inputs st))"
proof (induction inputs arbitrary: st)
  case Nil
  then show ?case by simp
next
  case (Cons a inputs)
  obtain q now where a: "a = (q, now)" by (cases a)
  show ?case
    unfolding a run_ticks.simps
    by (rule Cons.IH) (rule render_tick_lengths [OF Cons.prems])
qed

text \<open>
  A pass that draws has appended what the queue held and has trimmed nothing: the
  chart shows the whole history, the x-axis range is the one of lines 110 to 118 and the
  y-axis range the one of lines 156 to 160 on that history. A pass on an empty queue
  changes nothing and draws nothing.
\<close>

lemma render_tick_draws:
  assumes "render_tick q now st = (q', st', Inr (Some d))"
  shows "q' = []
    \<and> st' = st\<lparr>times_ss := times_ss st @ map fst q, prices_ss := prices_ss st @ map snd q\<rparr>
    \<and> x_axis_range (times_ss st') now = Inr (x_range d)
    \<and> y_axis_range (prices_ss st') = Inr (y_range d)
    \<and> line_x d = times_ss st' \<and> line_y d = prices_ss st'
    \<and> takeWhile (\<lambda>t. t < fst (x_range d)) (times_ss st') = []"
  using assms
  by (auto simp: render_tick_def drain_all trim_def Let_def trim_index_0
      split: sum.splits prod.splits if_splits)

lemma render_tick_idle: "render_tick [] now st = ([], st, Inr None)"
  by (simp add: render_tick_def drain_all)

text \<open>
  A pass that trims: the observation of instant 0 is older than the window at the
  instant 2000000001, the session state loses it, and the pass ends at line 127.
\<close>

lemma render_tick_trim_raises:
  "render_tick [(2000000000, 101)] 2000000001 \<lparr>times_ss = [0], prices_ss = [100]\<rparr>
     = ([], \<lparr>times_ss = [2000000000], prices_ss = [101]\<rparr>, Inl AttributeError)"
  by (simp add: render_tick_def drain_all x_axis_range_def Let_def timedelta_seconds_def
      WINDOW_SECS_def trim_def trim_index.simps)

section \<open>Properties of the render loop\<close>

text \<open>
  C1. For a non-empty history whose first timestamp is \<open>first\<close> and any instant \<open>now\<close>,
  the x-axis range computed at lines 110 to 118 is \<open>[first, first + window]\<close> when
  \<open>now - first < window\<close> and \<open>[now - window, now]\<close> otherwise, where \<open>window\<close> is the
  1200 seconds of \<open>WINDOW_SECS\<close>. The first timestamp is the earliest one whenever the
  history is in time order.
\<close>

theorem x_axis_range_rule:
  "times_utc \<noteq> [] \<longrightarrow>
     x_axis_range times_utc now =
       Inr (if now - hd times_utc < timedelta_seconds WINDOW_SECS
            then (hd times_utc, hd times_utc + timedelta_seconds WINDOW_SECS)
            else (now - timedelta_seconds WINDOW_SECS, now))
     \<and> timedelta_seconds WINDOW_SECS = 1200 * 1000000
     \<and> (sorted times_utc \<longrightarrow> hd times_utc = Min (set times_utc))"
proof (cases times_utc)
  case Nil
  then show ?thesis by simp
next
  case (Cons first rest)
  have "sorted (first # rest) \<longrightarrow> first = Min (set (first # rest))"
  proof
    assume "sorted (first # rest)"
    then have le: "\<forall>y \<in> set rest. first \<le> y"
      by simp
    have "Min (set (first # rest)) = first"
    proof (rule Min_eqI)
      show "finite (set (first # rest))" by (rule finite_set)
      show "first \<in> set (first # rest)" by simp
      fix y assume "y \<in> set (first # rest)"
      with le show "first \<le> y" by auto
    qed
    then show "first = Min (set (first # rest))" by (rule sym)
  qed
  then show ?thesis
    using Cons by (simp add: x_axis_range_def Let_def timedelta_seconds_def WINDOW_SECS_def del: set_simps)
qed

theorem x_axis_range_rule_witness:
  "x_axis_range [5000000, 7000000] 9000000 = Inr (5000000, 1205000000)
   \<and> x_axis_range [5000000, 7000000] 1205000000 = Inr (5000000, 1205000000)
   \<and> x_axis_range [5000000, 7000000] 1205000001 = Inr (5000001, 1205000001)"
  using x_axis_range_rule [of "[5000000, 7000000]" 9000000]
        x_axis_range_rule [of "[5000000, 7000000]" 1205000000]
        x_axis_range_rule [of "[5000000, 7000000]" 1205000001]
  by simp


text \<open>
  What the trim step of lines 120 to 128 leaves in the session state, whether or not it
  then raises: both lists without their first \<open>n\<close> entries, where \<open>n\<close> is the length of
  the longest prefix of timestamps strictly before \<open>x_start\<close>. Every removed timestamp is
  before \<open>x_start\<close>, the first remaining one (if any) is not, and in a history that is in
  time order no remaining timestamp is.
\<close>

lemma trim_state_longest_prefix:
  "(let n = length (takeWhile (\<lambda>t. t < x_start) (times_ss st));
        st' = fst (trim x_start st)
    in times_ss st' = drop n (times_ss st)
       \<and> prices_ss st' = drop n (prices_ss st)
       \<and> (\<forall>t \<in> set (take n (times_ss st)). t < x_start)
       \<and> (times_ss st' \<noteq> [] \<longrightarrow> x_start \<le> hd (times_ss st'))
       \<and> (sorted (times_ss st) \<longrightarrow> (\<forall>t \<in> set (times_ss st'). x_start \<le> t)))"
proof -
  let ?P = "\<lambda>t. t < x_start"
  let ?ts = "times_ss st"
  let ?n = "length (takeWhile ?P ?ts)"
  let ?st' = "fst (trim x_start st)"
  have dw: "drop ?n ?ts = dropWhile ?P ?ts"
    by (rule drop_takeWhile_length)
  have 1: "times_ss ?st' = drop ?n ?ts"
    by (simp add: trim_state)
  have 2: "prices_ss ?st' = drop ?n (prices_ss st)"
    by (simp add: trim_state)
  have "take ?n ?ts = takeWhile ?P ?ts"
    by (rule takeWhile_eq_take [symmetric])
  then have 3: "\<forall>t \<in> set (take ?n ?ts). t < x_start"
    using set_takeWhileD [of _ ?P ?ts] by (simp only:) blast
  have b: "x_start \<le> hd (dropWhile ?P ?ts)" if "dropWhile ?P ?ts \<noteq> []"
  proof -
    from that have "\<not> hd (dropWhile ?P ?ts) < x_start"
      by (rule hd_dropWhile)
    then show ?thesis
      by (rule leI)
  qed
  then have 4: "times_ss ?st' \<noteq> [] \<longrightarrow> x_start \<le> hd (times_ss ?st')"
    by (simp only: 1 dw) blast
  have c: "x_start \<le> t" if s: "sorted ?ts" and t: "t \<in> set (dropWhile ?P ?ts)" for t
  proof -
    from t obtain y ys where ys: "dropWhile ?P ?ts = y # ys"
      by (cases "dropWhile ?P ?ts") simp_all
    have "sorted (dropWhile ?P ?ts)"
      using s by (rule sorted_dropWhile)
    with ys t have "y \<le> t"
      by (simp only: ys) auto
    moreover have "x_start \<le> y"
      using b ys by (simp only: ys) simp
    ultimately show ?thesis
      by (rule order_trans [rotated])
  qed
  then have 5: "sorted ?ts \<longrightarrow> (\<forall>t \<in> set (times_ss ?st'). x_start \<le> t)"
    by (simp only: 1 dw) blast
  from 1 2 3 4 5 show ?thesis
    unfolding Let_def by (intro conjI)
qed

text \<open>
  The step ends normally only when it has nothing to remove, and then it leaves the
  session state as it was.
\<close>

lemma trim_completes_unchanged:
  "trim x_start st = (st', Inr r) \<Longrightarrow> st' = st \<and> r = (times_ss st, prices_ss st)"
  by (auto simp: trim_def Let_def split: if_splits)

lemma trim_removal_raises:
  "takeWhile (\<lambda>t. t < x_start) (times_ss st) \<noteq> [] \<Longrightarrow> snd (trim x_start st) = Inl AttributeError"
  by (simp add: trim_outcome)

text \<open>
  C3. The trim step is to remove the longest prefix of entries whose timestamp is
  strictly before \<open>x_start\<close> and to complete, with the earliest remaining timestamp not
  before \<open>x_start\<close>. On the history of the instants 0 and 2000000000 at the instant
  2000000001, \<open>x_start\<close> is 800000001 and the first entry is to go. The step does
  replace both lists of the session state by their slices from index 1, but it does not
  complete: line 127 reads \<^verbatim>\<open>st.session_steate\<close> and raises \<^verbatim>\<open>AttributeError\<close>, so the
  locals are never rebound and the pass ends there.
\<close>

theorem trim_step_raises:
  "x_axis_range [0, 2000000000] 2000000001 = Inr (800000001, 2000000001)
   \<and> trim 800000001 \<lparr>times_ss = [0, 2000000000], prices_ss = [100, 101]\<rparr>
       = (\<lparr>times_ss = [2000000000], prices_ss = [101]\<rparr>, Inl AttributeError)"
  by (simp add: x_axis_range_def Let_def timedelta_seconds_def WINDOW_SECS_def trim_def
      trim_index.simps)

text \<open>
  C5. After any sequence of puts by the producer with no take in between, a take
  returns the last observation put (what the queue held before, when nothing was put;
  \<^verbatim>\<open>Empty\<close> for a queue that never held anything). Hence when the producer has put
  several observations since the last pass, the drain of the next pass appends exactly
  one entry, the last observation, to both lists and leaves the queue empty, so that a
  further drain appends nothing: the earlier observations are never seen again.
\<close>

theorem latest_wins:
  "get_nowait (foldl consume q items) = (if items = [] then get_nowait q else Inr (last items, []))
   \<and> get_nowait (foldl consume [] []) = Inl Empty
   \<and> (items \<noteq> [] \<longrightarrow>
        drain (foldl consume q items) st False =
          ([], st\<lparr>times_ss := times_ss st @ [fst (last items)],
                   prices_ss := prices_ss st @ [snd (last items)]\<rparr>, True))
   \<and> drain [] st False = ([], st, False)"
  by (simp add: foldl_consume drain_all get_nowait_def)

theorem latest_wins_witness:
  "get_nowait (foldl consume [] [(1, 100), (2, 101), (3, 99)]) = Inr ((3, 99), [])
   \<and> drain (foldl consume [] [(1, 100), (2, 101), (3, 99)]) initial_state False =
       ([], \<lparr>times_ss = [3], prices_ss = [99]\<rparr>, True)"
  using latest_wins [of "[]" "[(1, 100), (2, 101), (3, 99)]" initial_state]
  by (simp add: initial_state_def)

text \<open>
  C10. In every session state that a run of render passes reaches from the empty
  lists, the list of times and the list of prices have the same length, also after a
  pass that raised.
\<close>

theorem lists_same_length:
  "length (times_ss (run_ticks inputs initial_state)) =
   length (prices_ss (run_ticks inputs initial_state))"
  by (rule run_ticks_lengths) (simp add: initial_state_def)

theorem lists_same_length_witness:
  "length (times_ss (run_ticks [([(0, 100)], 1), ([(2000000000, 101)], 2000000001)] initial_state)) =
   length (prices_ss (run_ticks [([(0, 100)], 1), ([(2000000000, 101)], 2000000001)] initial_state))"
  by (rule lists_same_length)

section \<open>Properties of the y-axis range\<close>

text \<open>
  C4. The y-axis range of the single price 250.5: line 159 gives \<open>high = 500\<close>, where
  \<open>ceil((max_price + Y_TICK) / Y_TICK) * Y_TICK\<close> is 750. The expression of line 159
  adds \<open>Y_TICK - 1\<close> before the floor division, which is the ceiling only for whole
  numbers (see \<open>high_of_int\<close>); \<open>low\<close> is the floor of the claim for every price (see
  \<open>low_of_floor\<close>).
\<close>

theorem high_not_ceiling:
  "y_axis_range [501 / 2] = Inr (0, 500)
   \<and> \<lceil>(501 / 2 + rat_of_int Y_TICK_INTERVAL) / rat_of_int Y_TICK_INTERVAL\<rceil> * Y_TICK_INTERVAL = 750"
  by (simp add: y_axis_range_def min_py_def max_py_def low_of_def high_of_def floordiv_tick_def
      Y_TICK_INTERVAL_def floor_eq_iff ceiling_eq_iff)

text \<open>
  C6. For the single price 250.5 the range is \<open>[0, 500]\<close>, and 500 is below
  \<open>max_price + Y_TICK = 500.5\<close>: the margin above the data is short of a full tick.
  For the prices 100 and 400 the range is \<open>[-250, 750]\<close>. The margin below is always
  a full tick (see \<open>low_of_margin\<close>); the one above always exceeds \<open>Y_TICK - 1\<close> (see
  \<open>high_of_margin\<close>).
\<close>

theorem margin_above_short:
  "y_axis_range [501 / 2] = Inr (0, 500)
   \<and> \<not> (501 / 2 + rat_of_int Y_TICK_INTERVAL \<le> rat_of_int 500)
   \<and> y_axis_range [100, 400] = Inr (- 250, 750)"
  by (simp add: y_axis_range_def min_py_def max_py_def low_of_def high_of_def floordiv_tick_def
      Y_TICK_INTERVAL_def floor_eq_iff)

text \<open>
  C9, as stated, fails: for the single price 100 the range is \<open>[-250, 500]\<close>, and
  \<open>500 - 2 * Y_TICK\<close> is 0.
\<close>

theorem single_point_counterexample:
  "y_axis_range [100] = Inr (- 250, 500) \<and> (- 250 :: int) \<noteq> 500 - 2 * Y_TICK_INTERVAL"
  by (simp add: y_axis_range_def min_py_def max_py_def low_of_def high_of_def floordiv_tick_def
      Y_TICK_INTERVAL_def floor_eq_iff)

text \<open>
  C9, amended. For a history of one point \<open>p\<close> the range is computed by the same two
  expressions, with no special case. When \<open>p\<close> is a multiple of \<open>Y_TICK\<close>,
  \<open>low = high - 2 * Y_TICK\<close>; when \<open>p\<close> lies 1 or more above the multiple of \<open>Y_TICK\<close>
  just below it, \<open>low = high - 3 * Y_TICK\<close>.
\<close>

theorem single_point_range:
  "y_axis_range [p] = Inr (low_of p, high_of p)
   \<and> (p = rat_of_int (k * Y_TICK_INTERVAL) \<longrightarrow> low_of p = high_of p - 2 * Y_TICK_INTERVAL)
   \<and> (1 \<le> p - rat_of_int (floordiv_tick p * Y_TICK_INTERVAL) \<longrightarrow>
        low_of p = high_of p - 3 * Y_TICK_INTERVAL)"
proof (intro conjI impI)
  show "y_axis_range [p] = Inr (low_of p, high_of p)"
    by (simp add: y_axis_range_def min_py_def max_py_def)
next
  assume p: "p = rat_of_int (k * Y_TICK_INTERVAL)"
  then have "floordiv_tick p = k"
    by (simp only: floordiv_tick_multiple)
  with p have "p - rat_of_int (floordiv_tick p * 250) < 1"
    by (simp add: Y_TICK_INTERVAL_def)
  then have "high_of p - low_of p = 500"
    by (simp only: high_low_single if_True)
  then show "low_of p = high_of p - 2 * Y_TICK_INTERVAL"
    by (simp add: Y_TICK_INTERVAL_def)
next
  assume "1 \<le> p - rat_of_int (floordiv_tick p * Y_TICK_INTERVAL)"
  then have "\<not> p - rat_of_int (floordiv_tick p * 250) < 1"
    by (simp add: Y_TICK_INTERVAL_def)
  then have "high_of p - low_of p = 750"
    by (simp only: high_low_single if_False)
  then show "low_of p = high_of p - 3 * Y_TICK_INTERVAL"
    by (simp add: Y_TICK_INTERVAL_def)
qed

theorem single_point_range_witness:
  "low_of 500 = high_of 500 - 2 * Y_TICK_INTERVAL \<and> low_of 100 = high_of 100 - 3 * Y_TICK_INTERVAL"
proof -
  have "floordiv_tick 100 = 0"
    by (rule floordiv_tickI) simp_all
  then have "(1::rat) \<le> 100 - rat_of_int (floordiv_tick 100 * Y_TICK_INTERVAL)"
    by simp
  moreover have "(500::rat) = rat_of_int (2 * Y_TICK_INTERVAL)"
    by (simp add: Y_TICK_INTERVAL_def)
  ultimately show ?thesis
    using single_point_range [of 500 2] single_point_range [of 100 0] by blast
qed

section \<open>Facts about the feed client\<close>

lemma sleeps_append: "sleeps (out @ out') = sleeps out @ sleeps out'"
  by (induction out rule: sleeps.induct) simp_all

lemma sleeps_map_Sleep: "sleeps (map Sleep ns) = ns"
  by (induction ns) simp_all

lemma stream_loop_append:
  "stream_loop f b (xs @ ys) =
     (case stream_loop f b xs of
        (out, Inl e) \<Rightarrow> (out, Inl e)
      | (out, Inr b') \<Rightarrow> (case stream_loop f b' ys of (out', r) \<Rightarrow> (out @ out', r)))"
  by (induction xs arbitrary: b) (auto split: prod.splits sum.splits)

lemma double_capped:
  assumes "1 \<le> b" and "b \<le> 32"
  shows "min (min (b * 2) 32 * 2 ^ i) 32 = min (b * 2 ^ Suc i) (32 :: int)"
proof (cases "b * 2 \<le> 32")
  case True
  then show ?thesis by (simp add: mult.assoc)
next
  case False
  have p: "(1 :: int) \<le> 2 ^ i" by simp
  then have "32 * 1 \<le> 32 * (2 :: int) ^ i"
    by (intro mult_left_mono) simp_all
  moreover from False p assms have "32 * 1 \<le> (b * 2) * 2 ^ i"
    by (intro mult_mono) simp_all
  ultimately show ?thesis using False by (simp add: mult.assoc)
qed

lemma failures_only:
  "list_all caught es \<Longrightarrow> 1 \<le> b \<Longrightarrow> b \<le> 32 \<Longrightarrow>
   stream_loop f b (map ConnectRaises es) =
     (map (\<lambda>i. Sleep (min (b * 2 ^ i) 32)) [0..<length es], Inr (min (b * 2 ^ length es) 32))"
proof (induction es arbitrary: b)
  case Nil
  then show ?case by simp
next
  case (Cons e es)
  let ?b' = "min (b * 2) 32"
  from Cons.prems have it: "iteration f b (ConnectRaises e) = ([Sleep b], Inr ?b')"
    by (simp add: iteration_def handler_def)
  from Cons.prems have "stream_loop f ?b' (map ConnectRaises es) =
     (map (\<lambda>i. Sleep (min (?b' * 2 ^ i) 32)) [0..<length es], Inr (min (?b' * 2 ^ length es) 32))"
    by (intro Cons.IH) simp_all
  also have "(\<lambda>i. Sleep (min (?b' * 2 ^ i) 32)) = (\<lambda>i. Sleep (min (b * 2 ^ Suc i) 32))"
    using Cons.prems by (intro ext) (simp only: double_capped)
  also have "min (?b' * 2 ^ length es) 32 = min (b * 2 ^ Suc (length es)) 32"
    using Cons.prems by (simp only: double_capped)
  finally have rest: "stream_loop f ?b' (map ConnectRaises es) =
     (map (\<lambda>i. Sleep (min (b * 2 ^ Suc i) 32)) [0..<length es], Inr (min (b * 2 ^ Suc (length es)) 32))" .
  have "[0..<length (e # es)] = 0 # map Suc [0..<length es]"
    by (simp add: upt_conv_Cons map_Suc_upt del: upt_Suc)
  then have "map (\<lambda>i. Sleep (min (b * 2 ^ i) 32)) [0..<length (e # es)] =
     Sleep b # map (\<lambda>i. Sleep (min (b * 2 ^ Suc i) 32)) [0..<length es]"
    using Cons.prems by (simp add: comp_def del: upt_Suc)
  then show ?case
    using it rest by (simp del: upt_Suc)
qed

lemma failures_from_1:
  "list_all caught es \<Longrightarrow>
   stream_loop f 1 (map ConnectRaises es) =
     (map Sleep (backoff_sleeps (length es)), Inr (min (2 ^ length es) 32))"
  using failures_only [of es 1 f] by (simp add: backoff_sleeps_def comp_def)

lemma receive_append:
  "snd (receive f pre) = None \<Longrightarrow>
   receive f (pre @ ms) = (fst (receive f pre) @ fst (receive f ms), snd (receive f ms))"
  by (induction pre) (auto split: sum.splits prod.splits)

lemma sleeps_receive: "sleeps (fst (receive f msgs)) = []"
  by (induction msgs) (auto split: sum.splits prod.splits)

lemma session_ok:
  "snd (receive f msgs) = None \<Longrightarrow>
   iteration f b (Connected msgs Exhausted) = (fst (receive f msgs), Inr 1)"
  by (cases "receive f msgs") (simp add: iteration_def)

lemma session_closed:
  "snd (receive f msgs) = None \<Longrightarrow> caught e \<Longrightarrow>
   iteration f b (Connected msgs (Raises e)) = (fst (receive f msgs) @ [Sleep 1], Inr 2)"
  by (cases "receive f msgs") (simp add: iteration_def handler_def)

lemma sleeps_after_failures:
  assumes es: "list_all caught es"
  shows "sleeps (fst (stream_loop f 1 (map ConnectRaises es @ rest))) =
         backoff_sleeps (length es) @ sleeps (fst (stream_loop f (min (2 ^ length es) 32) rest))"
  by (simp add: stream_loop_append failures_from_1 [OF es] sleeps_append sleeps_map_Sleep
      split: prod.splits)

lemma backoff_sleeps_8: "backoff_sleeps 8 = [1, 2, 4, 8, 16, 32, 32, 32]"
  by (simp add: backoff_sleeps_def upt_rec [of _ "numeral _"])

lemma iteration_network_only:
  assumes "network_only f a"
  shows "\<exists>out b'. iteration f b a = (out, Inr b') \<and> length (sleeps out) = (if raises a then 1 else 0)"
proof (cases a)
  case (ConnectRaises e)
  with assms show ?thesis
    by (simp add: network_only_def iteration_def handler_def raises_def)
next
  case (Connected msgs ending)
  with assms have r: "snd (receive f msgs) = None"
    by (simp add: network_only_def)
  show ?thesis
  proof (cases ending)
    case (Raises e)
    with assms Connected have "caught e"
      by (simp add: network_only_def)
    with r show ?thesis
      unfolding Connected Raises
      by (simp add: session_closed raises_def sleeps_append sleeps_receive)
  next
    case Exhausted
    with r show ?thesis
      unfolding Connected Exhausted
      by (simp add: session_ok raises_def sleeps_receive)
  qed
qed

lemma stream_loop_network_only:
  "list_all (network_only f) attempts \<Longrightarrow>
   \<exists>out b'. stream_loop f b attempts = (out, Inr b')
     \<and> length (sleeps out) = length (filter raises attempts)"
proof (induction attempts arbitrary: b)
  case Nil
  then show ?case by simp
next
  case (Cons a attempts)
  then have "network_only f a" by simp
  then obtain out b1 where 1: "iteration f b a = (out, Inr b1)"
    and s1: "length (sleeps out) = (if raises a then 1 else 0)"
    using iteration_network_only by blast
  from Cons obtain out' b2 where 2: "stream_loop f b1 attempts = (out', Inr b2)"
    and s2: "length (sleeps out') = length (filter raises attempts)"
    by fastforce
  show ?case
    using 1 2 s1 s2 by (simp add: sleeps_append)
qed

lemma decode_malformed:
  assumes "malformed msg"
  shows "\<exists>e. decode_price f msg = Inl e \<and> \<not> caught e
           \<and> (e = JSONDecodeError \<or> e = KeyError \<or> e = TypeError)"
proof (cases msg)
  case NotJson
  then show ?thesis by (simp add: decode_price_def caught_def)
next
  case (Json data)
  show ?thesis
  proof (cases data)
    case (JDict kvs)
    with assms Json have "map_of kvs ''c'' = None"
      by (simp add: malformed_def)
    then have "map_of (rev kvs) ''c'' = None"
      by (simp add: map_of_eq_None_iff)
    with Json JDict show ?thesis
      by (simp add: decode_price_def subscript_c_def caught_def)
  qed (simp_all add: Json decode_price_def subscript_c_def caught_def)
qed

section \<open>Properties of the feed client\<close>

text \<open>
  C2. When the attempts to connect fail \<open>N\<close> times in a row from the start, each with
  an exception of the handler, the sleeps last \<open>1, 2, 4, 8, 16, 32, 32, 32, ...\<close>
  seconds: \<open>backoff_sleeps N\<close> (see \<open>backoff_sleeps_8\<close>). After a connection that
  opened, whatever the number of failures before it, the sleeps start again from 1:
  with the next failed attempt when the messages simply ran out, with the failure that
  ends the connection itself otherwise.
\<close>

theorem backoff_sequence:
  "list_all caught es \<and> list_all caught es' \<and> snd (receive f msgs) = None \<and> caught e \<longrightarrow>
     sleeps (fst (stream_latest_price f (map ConnectRaises es))) = backoff_sleeps (length es)
     \<and> sleeps (fst (stream_latest_price f
          (map ConnectRaises es @ Connected msgs Exhausted # map ConnectRaises es')))
        = backoff_sleeps (length es) @ backoff_sleeps (length es')
     \<and> sleeps (fst (stream_latest_price f
          (map ConnectRaises es @ Connected msgs (Raises e) # map ConnectRaises es')))
        = backoff_sleeps (length es) @ backoff_sleeps (Suc (length es'))"
proof (intro impI, elim conjE, intro conjI)
  assume es: "list_all caught es" and es': "list_all caught es'"
    and msgs: "snd (receive f msgs) = None" and e: "caught e"
  show "sleeps (fst (stream_latest_price f (map ConnectRaises es))) = backoff_sleeps (length es)"
    by (simp add: stream_latest_price_def failures_from_1 [OF es] sleeps_map_Sleep)
  have "sleeps (fst (stream_loop f b (Connected msgs Exhausted # map ConnectRaises es')))
        = backoff_sleeps (length es')" for b
    by (simp add: session_ok [OF msgs] failures_from_1 [OF es'] sleeps_append sleeps_receive
        sleeps_map_Sleep)
  then show "sleeps (fst (stream_latest_price f
          (map ConnectRaises es @ Connected msgs Exhausted # map ConnectRaises es')))
        = backoff_sleeps (length es) @ backoff_sleeps (length es')"
    by (simp only: stream_latest_price_def sleeps_after_failures [OF es])
  have "stream_loop f 2 (map ConnectRaises es') =
     (map (\<lambda>i. Sleep (min (2 * 2 ^ i) 32)) [0..<length es'], Inr (min (2 * 2 ^ length es') 32))"
    using es' by (rule failures_only) simp_all
  moreover have "backoff_sleeps (Suc (length es')) = 1 # map (\<lambda>i. min (2 * 2 ^ i) 32) [0..<length es']"
    by (simp add: backoff_sleeps_def upt_conv_Cons map_Suc_upt [symmetric] comp_def del: upt_Suc)
  ultimately have "sleeps (fst (stream_loop f b (Connected msgs (Raises e) # map ConnectRaises es')))
        = backoff_sleeps (Suc (length es'))" for b
    using sleeps_map_Sleep [of "map (\<lambda>i. min (2 * 2 ^ i) 32) [0..<length es']"]
    by (simp add: session_closed [OF msgs e] sleeps_append sleeps_receive comp_def del: upt_Suc)
  then show "sleeps (fst (stream_latest_price f
          (map ConnectRaises es @ Connected msgs (Raises e) # map ConnectRaises es')))
        = backoff_sleeps (length es) @ backoff_sleeps (Suc (length es'))"
    by (simp only: stream_latest_price_def sleeps_after_failures [OF es])
qed

theorem backoff_sequence_witness:
  "sleeps (fst (stream_latest_price no_strings
      (map ConnectRaises
        [OSError, InvalidStatusCode, OSError, ConnectionClosedError, OSError, OSError, OSError, OSError])))
     = [1, 2, 4, 8, 16, 32, 32, 32]
   \<and> sleeps (fst (stream_latest_price no_strings
      (map ConnectRaises [OSError, OSError, OSError]
       @ Connected [Json (JDict [(''c'', JNum 100)])] Exhausted
       # map ConnectRaises [OSError, OSError])))
     = [1, 2, 4, 1, 2]
   \<and> sleeps (fst (stream_latest_price no_strings
      (map ConnectRaises [OSError, OSError, OSError]
       @ Connected [Json (JDict [(''c'', JNum 100)])] (Raises ConnectionClosedOK)
       # map ConnectRaises [OSError, OSError])))
     = [1, 2, 4, 1, 2, 4]"
  using backoff_sequence [of "[OSError, InvalidStatusCode, OSError, ConnectionClosedError, OSError, OSError, OSError, OSError]"
          "[]" no_strings "[]" OSError]
        backoff_sequence [of "[OSError, OSError, OSError]" "[OSError, OSError]" no_strings
          "[Json (JDict [(''c'', JNum 100)])]" ConnectionClosedOK]
  by (simp add: caught_def backoff_sleeps_def decode_price_def subscript_c_def float_py_def)

text \<open>
  C7, as stated, fails: a message that is not JSON, or a JSON object without the field
  \<open>c\<close>, ends the stream with \<^verbatim>\<open>JSONDecodeError\<close> or \<^verbatim>\<open>KeyError\<close>; there is no sleep,
  and the connection that the network would have allowed next is never opened.
\<close>

theorem malformed_message_counterexample:
  "malformed NotJson
   \<and> stream_latest_price no_strings [Connected [NotJson] Exhausted, Connected [] Exhausted]
       = ([], Inl JSONDecodeError)
   \<and> malformed (Json (JDict [(''s'', JStr ''BTCUSDT'')]))
   \<and> stream_latest_price no_strings
        [Connected [Json (JDict [(''s'', JStr ''BTCUSDT'')])] Exhausted, Connected [] Exhausted]
       = ([], Inl KeyError)"
  by (simp add: malformed_def stream_latest_price_def iteration_def decode_price_def
      subscript_c_def handler_def caught_def)

text \<open>
  C7, amended. A malformed message that follows messages decoded without error makes
  the decoding raise \<^verbatim>\<open>JSONDecodeError\<close>, \<^verbatim>\<open>KeyError\<close> or \<^verbatim>\<open>TypeError\<close>, which the
  handler does not catch: the exception leaves the generator for its consumer after
  the prices of the earlier messages, the messages behind it and the further attempts
  are never reached, and nothing sleeps.
\<close>

theorem malformed_message_terminates:
  "malformed msg \<and> snd (receive f pre) = None \<longrightarrow>
     (\<exists>e. decode_price f msg = Inl e \<and> \<not> caught e
        \<and> (e = JSONDecodeError \<or> e = KeyError \<or> e = TypeError)
        \<and> stream_loop f backoff (Connected (pre @ msg # post) ending # rest)
            = (fst (receive f pre), Inl e))
     \<and> sleeps (fst (stream_loop f backoff (Connected (pre @ msg # post) ending # rest))) = []"
proof (intro impI, elim conjE)
  assume m: "malformed msg" and pre: "snd (receive f pre) = None"
  from m obtain e where e: "decode_price f msg = Inl e" "\<not> caught e"
      "e = JSONDecodeError \<or> e = KeyError \<or> e = TypeError"
    using decode_malformed by blast
  have "receive f (pre @ msg # post) = (fst (receive f pre), Some e)"
    using e(1) by (simp add: receive_append [OF pre])
  then have "stream_loop f backoff (Connected (pre @ msg # post) ending # rest)
            = (fst (receive f pre), Inl e)"
    using e(2) by (simp add: iteration_def handler_def)
  with e show "(\<exists>e. decode_price f msg = Inl e \<and> \<not> caught e
        \<and> (e = JSONDecodeError \<or> e = KeyError \<or> e = TypeError)
        \<and> stream_loop f backoff (Connected (pre @ msg # post) ending # rest)
            = (fst (receive f pre), Inl e))
     \<and> sleeps (fst (stream_loop f backoff (Connected (pre @ msg # post) ending # rest))) = []"
    by (simp add: sleeps_receive)
qed

theorem malformed_message_terminates_witness:
  "stream_loop no_strings 1
     [Connected [Json (JDict [(''c'', JNum 100)]), NotJson, Json (JDict [(''c'', JNum 101)])] Exhausted,
      Connected [] Exhausted]
   = ([Yield 100], Inl JSONDecodeError)"
  using malformed_message_terminates [of NotJson no_strings "[Json (JDict [(''c'', JNum 100)])]"
     1 "[Json (JDict [(''c'', JNum 101)])]" Exhausted "[Connected [] Exhausted]"]
  by (simp add: malformed_def decode_price_def subscript_c_def float_py_def)

text \<open>
  C8. When every exception raised while connecting or receiving is one of the four of
  the handler, and no message makes the decoding raise, no exception leaves the
  generator: after the attempts it holds a \<open>backoff\<close> and goes on with whatever
  attempts follow, and it has slept once for each attempt that raised.
\<close>

theorem network_errors_recovered:
  "list_all (network_only f) attempts \<longrightarrow>
     (\<exists>backoff. snd (stream_latest_price f attempts) = Inr backoff
        \<and> (\<forall>more. stream_latest_price f (attempts @ more) =
              (fst (stream_latest_price f attempts) @ fst (stream_loop f backoff more),
               snd (stream_loop f backoff more))))
     \<and> length (sleeps (fst (stream_latest_price f attempts))) = length (filter raises attempts)"
proof
  assume "list_all (network_only f) attempts"
  then obtain out b' where r: "stream_loop f 1 attempts = (out, Inr b')"
    and s: "length (sleeps out) = length (filter raises attempts)"
    using stream_loop_network_only by blast
  have "stream_loop f 1 (attempts @ more) = (out @ fst (stream_loop f b' more), snd (stream_loop f b' more))" for more
    by (simp add: stream_loop_append r split: prod.splits)
  with r s show "(\<exists>backoff. snd (stream_latest_price f attempts) = Inr backoff
        \<and> (\<forall>more. stream_latest_price f (attempts @ more) =
              (fst (stream_latest_price f attempts) @ fst (stream_loop f backoff more),
               snd (stream_loop f backoff more))))
     \<and> length (sleeps (fst (stream_latest_price f attempts))) = length (filter raises attempts)"
    by (simp add: stream_latest_price_def)
qed

theorem network_errors_recovered_witness:
  "stream_latest_price no_strings
     [ConnectRaises OSError,
      Connected [Json (JDict [(''c'', JNum 100)])] (Raises ConnectionClosedError),
      Connected [] (Raises ConnectionClosedOK),
      ConnectRaises InvalidStatusCode]
   = ([Sleep 1, Yield 100, Sleep 1, Sleep 1, Sleep 2], Inr 4)"
  using network_errors_recovered [of no_strings
     "[ConnectRaises OSError,
      Connected [Json (JDict [(''c'', JNum 100)])] (Raises ConnectionClosedError),
      Connected [] (Raises ConnectionClosedOK),
      ConnectRaises InvalidStatusCode]"]
  by (simp add: stream_latest_price_def iteration_def handler_def caught_def decode_price_def
      subscript_c_def float_py_def)

end
